theory Spec2Isabelle
  imports Main
begin

section \<open>The calendar fetch script \<^verbatim>\<open>fetch_events.py\<close>\<close>

text \<open>
  The script builds one command line per fetch target, hands every target to a thread
  pool that runs the external tool \<^verbatim>\<open>gog\<close> as a subprocess, and prints the captured
  standard output of every target under a marker line, in a fixed order.

  Strings are \<^typ>\<open>string\<close>; \<^verbatim>\<open>sys.argv\<close> is a \<^typ>\<open>string list\<close> whose element 0 is the
  script name, so the positional arguments are the elements from index 1 on. A
  character with the top bit set stands for text outside ASCII, among it the lone
  surrogates that Python makes of the bytes of a command-line argument that are not
  valid in the file-system encoding.
\<close>

subsection \<open>The external tool\<close>

type_synonym cmd = "string list"

text \<open>
  \<^verbatim>\<open>subprocess.run(cmd, capture_output=True, text=True)\<close> either returns a completed
  process (whatever its return code) or raises: \<^verbatim>\<open>OSError\<close> when the executable cannot be
  started, \<^verbatim>\<open>UnicodeDecodeError\<close> when the captured bytes are not text in the locale's
  encoding. \<^verbatim>\<open>print\<close> to standard output raises \<^verbatim>\<open>UnicodeEncodeError\<close> when the
  stream cannot encode the text. The script handles none of them, so all are values of
  the model.
\<close>

datatype py_exception = OSError | UnicodeDecodeError | UnicodeEncodeError

record completed_process =
  returncode :: int
  stdout :: string
  stderr :: string

type_synonym subprocess_run = "cmd \<Rightarrow> py_exception + completed_process"

subsection \<open>\<^verbatim>\<open>fetch_events\<close> (lines 25-38)\<close>

text \<open>Lines 27-36: the argument vector. \<^verbatim>\<open>if calendar_id:\<close> is true of a non-empty string.\<close>

definition fetch_cmd :: "string \<Rightarrow> string \<Rightarrow> string \<Rightarrow> string \<Rightarrow> cmd" where
  "fetch_cmd account time_from time_to calendar_id =
     [''gog'', ''calendar'', ''events'']
     @ (if calendar_id \<noteq> [] then [calendar_id] else [])
     @ [''--account'', account,
        ''--from'', time_from,
        ''--to'', time_to,
        ''--max'', ''50'',
        ''--json'']"

text \<open>Lines 37-38: run the command and return its captured standard output; the return
  code and the captured error stream are dropped, an exception of the call propagates.\<close>

definition fetch_events ::
  "subprocess_run \<Rightarrow> string \<Rightarrow> string \<Rightarrow> string \<Rightarrow> string \<Rightarrow> py_exception + string" where
  "fetch_events run account time_from time_to calendar_id =
     (case run (fetch_cmd account time_from time_to calendar_id) of
        Inl e \<Rightarrow> Inl e
      | Inr result \<Rightarrow> Inr (stdout result))"

subsection \<open>\<^verbatim>\<open>main\<close> (lines 41-78)\<close>

text \<open>
  What one run leaves behind: the text written to standard output, the lines the script
  itself prints to the error stream, the exit status, the command lines handed to the
  thread pool (each is run as a subprocess), and the exception that ended the run, if
  one did. The interpreter prints the traceback of an uncaught exception to the error
  stream and exits with status 1; the traceback is not among \<open>err_lines\<close>.
\<close>

record outcome =
  out_text :: string
  err_lines :: "string list"
  exit_status :: nat
  launched :: "cmd list"
  uncaught :: "py_exception option"

text \<open>
  Whether \<^verbatim>\<open>sys.stdout\<close> can encode a text depends on its encoding and error handler,
  which the environment fixes (locale, \<^verbatim>\<open>PYTHONIOENCODING\<close>): a strict handler rejects
  a lone surrogate under every encoding, and text outside the encoding's repertoire; a
  lenient handler rejects nothing. ASCII text is encoded by every encoding. The
  environment's part is a parameter: what the stream does with text that is not ASCII.
\<close>

type_synonym stdout_encoder = "string \<Rightarrow> bool"

definition is_ascii :: "string \<Rightarrow> bool" where
  "is_ascii s \<longleftrightarrow> list_all (\<lambda>c. \<not> digit7 c) s"

definition encodable :: "stdout_encoder \<Rightarrow> string \<Rightarrow> bool" where
  "encodable enc s \<longleftrightarrow> is_ascii s \<or> enc s"

text \<open>
  \<^verbatim>\<open>print(s)\<close> to standard output writes \<open>s\<close> and a newline, or raises
  \<^verbatim>\<open>UnicodeEncodeError\<close> and writes nothing of \<open>s\<close>. The stream is taken to be open.
  The error stream escapes what it cannot encode (\<^verbatim>\<open>backslashreplace\<close>), so printing
  to it does not raise.
\<close>

definition py_print :: "stdout_encoder \<Rightarrow> string \<Rightarrow> string \<Rightarrow> py_exception + string" where
  "py_print enc out s =
     (if encodable enc s then Inr (out @ s @ [CHR 0x0A]) else Inl UnicodeEncodeError)"

definition usage_text :: string where
  "usage_text =
     ''Usage: fetch_events.py <personal_account> <work_account> <from> <to> [extra_calendar_ids...]''"

text \<open>Line 65: the warning for a specifier without a colon (\<open>CHR 0x27\<close> is the quote).\<close>

definition warning_text :: "string \<Rightarrow> string" where
  "warning_text extra =
     ''Warning: skipping invalid extra calendar '' @ [CHR 0x27] @ extra @ [CHR 0x27]
     @ '' (expected account:calendarId)''"

text \<open>
  Line 67: \<^verbatim>\<open>extra.split(":", 1)\<close> of a string that contains a colon (line 64 has
  checked it) is the pair of the text before the first colon and the text after it.
\<close>

definition split_first_colon :: "string \<Rightarrow> string \<times> string" where
  "split_first_colon extra =
     (takeWhile (\<lambda>c. c \<noteq> CHR '':'') extra, drop 1 (dropWhile (\<lambda>c. c \<noteq> CHR '':'') extra))"

text \<open>Line 55: the dictionary of the two reserved aliases.\<close>

definition account_map :: "string \<Rightarrow> string \<Rightarrow> (string \<rightharpoonup> string)" where
  "account_map account_personal account_work =
     [''personal'' \<mapsto> account_personal, ''work'' \<mapsto> account_work]"

text \<open>Line 68: \<^verbatim>\<open>account_map.get(acct_key, acct_key)\<close>.\<close>

definition resolve_account :: "(string \<rightharpoonup> string) \<Rightarrow> string \<Rightarrow> string" where
  "resolve_account amap acct_key =
     (case amap acct_key of Some account \<Rightarrow> account | None \<Rightarrow> acct_key)"

text \<open>
  Lines 67-69, the body of the loop for a specifier with a colon: the pair of calendar id
  and future appended to \<^verbatim>\<open>extra_futures\<close>. A future is identified with the command
  line of its task.
\<close>

definition extra_target ::
  "(string \<rightharpoonup> string) \<Rightarrow> string \<Rightarrow> string \<Rightarrow> string \<Rightarrow> string \<times> cmd" where
  "extra_target amap time_from time_to extra =
     (let (acct_key, cal_id) = split_first_colon extra;
          account = resolve_account amap acct_key
      in (cal_id, fetch_cmd account time_from time_to cal_id))"

text \<open>
  Lines 62-69: the loop over the extra specifiers. It returns the warnings it printed
  and the list \<^verbatim>\<open>extra_futures\<close>, both in the order of the specifiers.
\<close>

fun submit_extras ::
  "(string \<rightharpoonup> string) \<Rightarrow> string \<Rightarrow> string \<Rightarrow> string list \<Rightarrow> string list \<times> (string \<times> cmd) list"
where
  "submit_extras amap time_from time_to [] = ([], [])"
| "submit_extras amap time_from time_to (extra # rest) =
     (let (warnings, extra_futures) = submit_extras amap time_from time_to rest
      in if CHR '':'' \<notin> set extra
         then (warning_text extra # warnings, extra_futures)
         else (warnings, extra_target amap time_from time_to extra # extra_futures))"

text \<open>
  \<^verbatim>\<open>future.result()\<close> is what \<^verbatim>\<open>fetch_events\<close> returned for the task, or the exception
  it raised, raised again in the main thread.
\<close>

definition future_result :: "subprocess_run \<Rightarrow> cmd \<Rightarrow> py_exception + string" where
  "future_result run c = map_sum id stdout (run c)"

text \<open>
  One marker line and one result (lines 71-72, 73-74, 77-78): the marker is printed
  first; then the result of the future is awaited and printed. The run ends at the
  first exception (of the print of the marker, of the future, of the print of its
  text), with what was printed before it; otherwise it goes on with \<open>continue\<close>.
\<close>

definition print_section ::
  "stdout_encoder \<Rightarrow> string \<Rightarrow> py_exception + string
     \<Rightarrow> (string \<Rightarrow> string \<times> py_exception option) \<Rightarrow> string
     \<Rightarrow> string \<times> py_exception option" where
  "print_section enc marker result continue out =
     (case py_print enc out marker of
        Inl x \<Rightarrow> (out, Some x)
      | Inr out1 \<Rightarrow>
          (case result of
             Inl e \<Rightarrow> (out1, Some e)
           | Inr text \<Rightarrow>
               (case py_print enc out1 text of
                  Inl x \<Rightarrow> (out1, Some x)
                | Inr out2 \<Rightarrow> continue out2)))"

definition extra_marker :: "string \<Rightarrow> string" where
  "extra_marker cal_id = ''===EXTRA:'' @ cal_id @ ''===''"

text \<open>Lines 76-78: the loop that prints the extra sections.\<close>

fun print_extras ::
  "stdout_encoder \<Rightarrow> subprocess_run \<Rightarrow> (string \<times> cmd) list \<Rightarrow> string
     \<Rightarrow> string \<times> py_exception option" where
  "print_extras enc run [] out = (out, None)"
| "print_extras enc run ((cal_id, future) # rest) out =
     print_section enc (extra_marker cal_id) (future_result run future)
       (print_extras enc run rest) out"

definition main :: "stdout_encoder \<Rightarrow> subprocess_run \<Rightarrow> string list \<Rightarrow> outcome" where
  "main enc run argv =
     (if length argv < 5 then
        \<lparr>out_text = [], err_lines = [usage_text], exit_status = 1, launched = [],
         uncaught = None\<rparr>
      else
        let account_personal = argv ! 1;
            account_work = argv ! 2;
            time_from = argv ! 3;
            time_to = argv ! 4;
            extra_calendars = drop 5 argv;
            amap = account_map account_personal account_work;
            future_personal = fetch_cmd account_personal time_from time_to [];
            future_work = fetch_cmd account_work time_from time_to [];
            (warnings, extra_futures) =
               submit_extras amap time_from time_to extra_calendars;
            (text, exc) =
               print_section enc ''===PERSONAL==='' (future_result run future_personal)
                 (print_section enc ''===WORK==='' (future_result run future_work)
                    (print_extras enc run extra_futures)) []
        in \<lparr>out_text = text, err_lines = warnings,
            exit_status = (case exc of None \<Rightarrow> 0 | Some e \<Rightarrow> 1),
            launched = future_personal # future_work # map snd extra_futures,
            uncaught = exc\<rparr>)"

subsection \<open>The thread pool (lines 58-78)\<close>

text \<open>
  For the claims about concurrency the run is modelled with its interleavings. The
  main thread is straight-line code once \<^verbatim>\<open>sys.argv\<close> is known: it submits a task
  (\<^verbatim>\<open>executor.submit\<close>), prints a warning to the error stream, prints a line to
  standard output, or prints the result of the future with a given index, futures being
  numbered in the order of submission.
\<close>

datatype instr = Submit cmd | Warn string | Print string | PrintResult nat

text \<open>One pass of the loop of lines 63-69: a warning, or the submission of the task.\<close>

definition submit_instr :: "(string \<rightharpoonup> string) \<Rightarrow> string \<Rightarrow> string \<Rightarrow> string \<Rightarrow> instr" where
  "submit_instr amap time_from time_to extra =
     (if CHR '':'' \<notin> set extra then Warn (warning_text extra)
      else Submit (snd (extra_target amap time_from time_to extra)))"

text \<open>Lines 76-78: \<^verbatim>\<open>extra_futures\<close> holds the futures submitted from index \<open>i\<close> on.\<close>

fun print_instrs :: "nat \<Rightarrow> (string \<times> cmd) list \<Rightarrow> instr list" where
  "print_instrs i [] = []"
| "print_instrs i ((cal_id, future) # rest) =
     Print (extra_marker cal_id) # PrintResult i # print_instrs (Suc i) rest"

text \<open>Lines 49-78 for at least four positional arguments.\<close>

definition main_thread :: "string list \<Rightarrow> instr list" where
  "main_thread argv =
     (let account_personal = argv ! 1;
          account_work = argv ! 2;
          time_from = argv ! 3;
          time_to = argv ! 4;
          extra_calendars = drop 5 argv;
          amap = account_map account_personal account_work
      in [Submit (fetch_cmd account_personal time_from time_to []),
          Submit (fetch_cmd account_work time_from time_to [])]
         @ map (submit_instr amap time_from time_to) extra_calendars
         @ [Print ''===PERSONAL==='', PrintResult 0, Print ''===WORK==='', PrintResult 1]
         @ print_instrs 2 (snd (submit_extras amap time_from time_to extra_calendars)))"

text \<open>
  The state of a run: what the main thread has still to do, the futures of the executor
  in submission order (the command of the task, and its result once the task is done),
  the text printed, the warnings printed, and the exception that ended the main thread.
\<close>

record pool_state =
  pending :: "instr list"
  futures :: "(cmd \<times> (py_exception + string) option) list"
  printed :: string
  warned :: "string list"
  raised :: "py_exception option"

text \<open>
  The scheduler's choice at each moment: the main thread takes its next step, or the
  worker running task \<open>i\<close> finishes it. Tasks finish in any order and at any time after
  their submission.
\<close>

datatype event = MainStep | TaskDone nat

text \<open>
  A print of the main thread to standard output: the text is written and the main
  thread goes on with \<open>rest\<close>, or the print raises, which ends the main thread.
\<close>

definition print_step :: "stdout_encoder \<Rightarrow> string \<Rightarrow> instr list \<Rightarrow> pool_state \<Rightarrow> pool_state" where
  "print_step enc text rest s =
     (case py_print enc (printed s) text of
        Inl x \<Rightarrow> s\<lparr>pending := [], raised := Some x\<rparr>
      | Inr out \<Rightarrow> s\<lparr>pending := rest, printed := out\<rparr>)"

text \<open>
  A step of the main thread. \<^verbatim>\<open>future.result()\<close> blocks while the task is not done (no
  step), returns its text, which is printed, or raises its exception again, which ends
  the main thread.
\<close>

definition main_step :: "stdout_encoder \<Rightarrow> pool_state \<Rightarrow> pool_state option" where
  "main_step enc s =
     (case pending s of
        [] \<Rightarrow> None
      | Submit c # rest \<Rightarrow> Some (s\<lparr>pending := rest, futures := futures s @ [(c, None)]\<rparr>)
      | Warn w # rest \<Rightarrow> Some (s\<lparr>pending := rest, warned := warned s @ [w]\<rparr>)
      | Print m # rest \<Rightarrow> Some (print_step enc m rest s)
      | PrintResult i # rest \<Rightarrow>
          (if i < length (futures s) then
             (case snd (futures s ! i) of
                None \<Rightarrow> None
              | Some (Inr text) \<Rightarrow> Some (print_step enc text rest s)
              | Some (Inl e) \<Rightarrow> Some (s\<lparr>pending := [], raised := Some e\<rparr>))
           else None))"

text \<open>A worker finishes task \<open>i\<close>: the future gets what \<^verbatim>\<open>fetch_events\<close> returned or raised.\<close>

definition task_done :: "subprocess_run \<Rightarrow> nat \<Rightarrow> pool_state \<Rightarrow> pool_state option" where
  "task_done run i s =
     (if i < length (futures s) \<and> snd (futures s ! i) = None
      then Some (s\<lparr>futures := (futures s)[i := (fst (futures s ! i),
                                    Some (future_result run (fst (futures s ! i))))]\<rparr>)
      else None)"

fun step :: "stdout_encoder \<Rightarrow> subprocess_run \<Rightarrow> event \<Rightarrow> pool_state \<Rightarrow> pool_state option" where
  "step enc run MainStep s = main_step enc s"
| "step enc run (TaskDone i) s = task_done run i s"

fun run_events ::
  "stdout_encoder \<Rightarrow> subprocess_run \<Rightarrow> event list \<Rightarrow> pool_state \<Rightarrow> pool_state option" where
  "run_events enc run [] s = Some s"
| "run_events enc run (e # es) s =
     (case step enc run e s of None \<Rightarrow> None | Some s' \<Rightarrow> run_events enc run es s')"

text \<open>
  The run is over when the main thread has nothing left to do and every task is done:
  leaving the \<^verbatim>\<open>with\<close> block waits for all of them, also when an exception leaves it.
\<close>

definition finished :: "pool_state \<Rightarrow> bool" where
  "finished s \<longleftrightarrow> pending s = [] \<and> list_all (\<lambda>f. snd f \<noteq> None) (futures s)"

definition outcome_of :: "pool_state \<Rightarrow> outcome" where
  "outcome_of s =
     \<lparr>out_text = printed s, err_lines = warned s,
      exit_status = (case raised s of None \<Rightarrow> 0 | Some e \<Rightarrow> 1),
      launched = map fst (futures s), uncaught = raised s\<rparr>"

text \<open>The run of \<^verbatim>\<open>main\<close> under a schedule; \<open>None\<close> if the schedule is not one of a
  complete run (an event that cannot happen, or the run is not over at its end).\<close>

definition main_concurrent ::
  "stdout_encoder \<Rightarrow> subprocess_run \<Rightarrow> event list \<Rightarrow> string list \<Rightarrow> outcome option" where
  "main_concurrent enc run schedule argv =
     (if length argv < 5 then
        Some \<lparr>out_text = [], err_lines = [usage_text], exit_status = 1, launched = [],
              uncaught = None\<rparr>
      else
        (case run_events enc run schedule
                \<lparr>pending = main_thread argv, futures = [], printed = [], warned = [],
                 raised = None\<rparr> of
           None \<Rightarrow> None
         | Some s \<Rightarrow> if finished s then Some (outcome_of s) else None))"

text \<open>
  The sequential reading of the main thread's remaining steps, every result taken from
  the tool directly: the reference the interleaved runs are compared with.
\<close>

fun rest_of_run ::
  "stdout_encoder \<Rightarrow> subprocess_run \<Rightarrow> instr list \<Rightarrow> cmd list \<Rightarrow> string \<Rightarrow> string list
     \<Rightarrow> outcome" where
  "rest_of_run enc run [] cs out err =
     \<lparr>out_text = out, err_lines = err, exit_status = 0, launched = cs, uncaught = None\<rparr>"
| "rest_of_run enc run (Submit c # rest) cs out err = rest_of_run enc run rest (cs @ [c]) out err"
| "rest_of_run enc run (Warn w # rest) cs out err = rest_of_run enc run rest cs out (err @ [w])"
| "rest_of_run enc run (Print m # rest) cs out err =
     (case py_print enc out m of
        Inr out1 \<Rightarrow> rest_of_run enc run rest cs out1 err
      | Inl x \<Rightarrow> \<lparr>out_text = out, err_lines = err, exit_status = 1, launched = cs,
                  uncaught = Some x\<rparr>)"
| "rest_of_run enc run (PrintResult i # rest) cs out err =
     (case future_result run (cs ! i) of
        Inr text \<Rightarrow>
          (case py_print enc out text of
             Inr out1 \<Rightarrow> rest_of_run enc run rest cs out1 err
           | Inl x \<Rightarrow> \<lparr>out_text = out, err_lines = err, exit_status = 1, launched = cs,
                       uncaught = Some x\<rparr>)
      | Inl e \<Rightarrow> \<lparr>out_text = out, err_lines = err, exit_status = 1, launched = cs,
                  uncaught = Some e\<rparr>)"

definition final_outcome :: "stdout_encoder \<Rightarrow> subprocess_run \<Rightarrow> pool_state \<Rightarrow> outcome" where
  "final_outcome enc run s =
     (case raised s of
        Some e \<Rightarrow> outcome_of s
      | None \<Rightarrow> rest_of_run enc run (pending s) (map fst (futures s)) (printed s) (warned s))"

text \<open>The steps that print a list of targets whose futures were submitted from index
  \<open>i\<close> on.\<close>

fun target_instrs :: "nat \<Rightarrow> (string \<times> cmd) list \<Rightarrow> instr list" where
  "target_instrs i [] = []"
| "target_instrs i ((marker, future) # rest) =
     Print marker # PrintResult i # target_instrs (Suc i) rest"

text \<open>The invariant of a run: a future that is done holds the result of its command,
  and after an exception the main thread has nothing left to do.\<close>

definition consistent :: "subprocess_run \<Rightarrow> pool_state \<Rightarrow> bool" where
  "consistent run s \<longleftrightarrow>
     list_all (\<lambda>f. snd f = None \<or> snd f = Some (future_result run (fst f))) (futures s)
     \<and> (raised s = None \<or> pending s = [])"


subsection \<open>Vocabulary of the properties\<close>

text \<open>The captured standard output of a call that returned (empty if it raised).\<close>

definition captured :: "subprocess_run \<Rightarrow> cmd \<Rightarrow> string" where
  "captured run c = (case run c of Inr result \<Rightarrow> stdout result | Inl e \<Rightarrow> [])"

text \<open>
  The output format as the specification words it: a section is a marker line
  immediately followed by the captured text of the target (and the newline that
  \<^verbatim>\<open>print\<close> adds to it).
\<close>

definition section_text :: "string \<times> string \<Rightarrow> string" where
  "section_text s = fst s @ [CHR 0x0A] @ snd s @ [CHR 0x0A]"

text \<open>
  The sections as the specification lists them: PERSONAL, WORK, then one EXTRA section
  per specifier with a colon, in the order of the command line.
\<close>

definition spec_sections ::
  "subprocess_run \<Rightarrow> string \<Rightarrow> string \<Rightarrow> string \<Rightarrow> string \<Rightarrow> string list
     \<Rightarrow> (string \<times> string) list" where
  "spec_sections run P W F T extras =
     (''===PERSONAL==='', captured run (fetch_cmd P F T []))
     # (''===WORK==='', captured run (fetch_cmd W F T []))
     # map (\<lambda>extra. (extra_marker (fst (extra_target (account_map P W) F T extra)),
                       captured run (snd (extra_target (account_map P W) F T extra))))
         (filter (\<lambda>extra. CHR '':'' \<in> set extra) extras)"

text \<open>
  The fetch targets in the order in which \<open>main\<close> prints them, each with its marker and
  the command line of its task.
\<close>

definition targets ::
  "string \<Rightarrow> string \<Rightarrow> string \<Rightarrow> string \<Rightarrow> string list \<Rightarrow> (string \<times> cmd) list" where
  "targets P W F T extras =
     (''===PERSONAL==='', fetch_cmd P F T [])
     # (''===WORK==='', fetch_cmd W F T [])
     # map (\<lambda>extra. (extra_marker (fst (extra_target (account_map P W) F T extra)),
                       snd (extra_target (account_map P W) F T extra)))
         (filter (\<lambda>extra. CHR '':'' \<in> set extra) extras)"

text \<open>
  A target prints in full: its call returns, and standard output can encode its marker
  and the captured text.
\<close>

definition target_ok :: "stdout_encoder \<Rightarrow> subprocess_run \<Rightarrow> string \<times> cmd \<Rightarrow> bool" where
  "target_ok enc run t =
     (case run (snd t) of
        Inl e \<Rightarrow> False
      | Inr result \<Rightarrow> encodable enc (fst t) \<and> encodable enc (stdout result))"

text \<open>The sections of a list of targets.\<close>

definition sections_of :: "subprocess_run \<Rightarrow> (string \<times> cmd) list \<Rightarrow> string" where
  "sections_of run ts = concat (map (\<lambda>t. section_text (fst t, captured run (snd t))) ts)"

text \<open>Lines 71-78 read as one loop over the targets.\<close>

fun print_all ::
  "stdout_encoder \<Rightarrow> subprocess_run \<Rightarrow> (string \<times> cmd) list \<Rightarrow> string
     \<Rightarrow> string \<times> py_exception option" where
  "print_all enc run [] out = (out, None)"
| "print_all enc run ((marker, future) # rest) out =
     print_section enc marker (future_result run future) (print_all enc run rest) out"

text \<open>
  A stubbed tool: text \<^verbatim>\<open>P-DATA\<close> for a command that names \<^verbatim>\<open>personal\<close>, \<^verbatim>\<open>W-DATA\<close> for
  any other.
\<close>

definition stub_run :: subprocess_run where
  "stub_run c =
     Inr \<lparr>returncode = 0,
          stdout = (if ''personal'' \<in> set c then ''P-DATA'' else ''W-DATA''),
          stderr = []\<rparr>"

text \<open>A tool that fails: return code 1, nothing on standard output.\<close>

definition failing_run :: subprocess_run where
  "failing_run c = Inr \<lparr>returncode = 1, stdout = [], stderr = ''boom''\<rparr>"

text \<open>An environment without the tool: every call raises \<^verbatim>\<open>OSError\<close>.\<close>

definition gog_missing :: subprocess_run where
  "gog_missing c = Inl OSError"

text \<open>A tool that cannot be started for the account \<^verbatim>\<open>work\<close> only.\<close>

definition work_missing :: subprocess_run where
  "work_missing c =
     (if ''work'' \<in> set c then Inl OSError
      else Inr \<lparr>returncode = 0, stdout = ''P-DATA'', stderr = []\<rparr>)"

text \<open>
  Two streams: one with a strict error handler and an encoding that holds nothing of
  the text at hand beyond ASCII (a lone surrogate is such text under every encoding),
  and one that encodes everything.
\<close>

definition strict_stdout :: stdout_encoder where
  "strict_stdout s = False"

definition lenient_stdout :: stdout_encoder where
  "lenient_stdout s = True"

section \<open>Command construction\<close>

text \<open>
  Claim C2. For every account, range bounds and calendar id, the command builder yields
  exactly \<^verbatim>\<open>gog calendar events [C] --account A --from F --to T --max 50 --json\<close>: the
  calendar id is an element of the vector if and only if it is non-empty, and then it
  stands right after the prefix \<^verbatim>\<open>gog calendar events\<close>; account and range bounds are
  copied unchanged, whatever they are. The subprocess is run on exactly this vector.
\<close>

theorem fetch_cmd_vector:
  "fetch_cmd A F T [] =
     [''gog'', ''calendar'', ''events'',
      ''--account'', A, ''--from'', F, ''--to'', T, ''--max'', ''50'', ''--json'']
   \<and> (C \<noteq> [] \<longrightarrow>
        fetch_cmd A F T C =
          [''gog'', ''calendar'', ''events'', C,
           ''--account'', A, ''--from'', F, ''--to'', T, ''--max'', ''50'', ''--json'']
        \<and> take 3 (fetch_cmd A F T C) = [''gog'', ''calendar'', ''events'']
        \<and> fetch_cmd A F T C ! 3 = C)
   \<and> (length (fetch_cmd A F T C) = 12 \<longleftrightarrow> C = [])
   \<and> (length (fetch_cmd A F T C) = 13 \<longleftrightarrow> C \<noteq> [])
   \<and> fetch_events run A F T C = map_sum id stdout (run (fetch_cmd A F T C))"
  by (cases "run (fetch_cmd A F T C)") (simp_all add: fetch_cmd_def fetch_events_def)

theorem fetch_cmd_vector_witness:
  "''cal123'' \<noteq> []
   \<and> fetch_cmd ''work'' ''2026-02-20'' ''2026-02-21'' ''cal123'' =
       [''gog'', ''calendar'', ''events'', ''cal123'',
        ''--account'', ''work'', ''--from'', ''2026-02-20'', ''--to'', ''2026-02-21'',
        ''--max'', ''50'', ''--json'']
   \<and> fetch_cmd ''work'' ''2026-02-20'' ''2026-02-21'' ''cal123'' ! 3 = ''cal123''"
  using fetch_cmd_vector [of "''work''" "''2026-02-20''" "''2026-02-21''" "''cal123''"]
  by simp

section \<open>Facts about the two loops and \<open>main\<close>\<close>

lemma split_first_colon_append:
  "CHR '':'' \<notin> set k \<Longrightarrow> split_first_colon (k @ CHR '':'' # rest) = (k, rest)"
  by (induction k) (auto simp: split_first_colon_def)

lemma split_first_colon_join:
  assumes "CHR '':'' \<in> set extra"
  shows "extra = fst (split_first_colon extra) @ CHR '':'' # snd (split_first_colon extra)
         \<and> CHR '':'' \<notin> set (fst (split_first_colon extra))"
proof -
  let ?P = "\<lambda>c. c \<noteq> CHR '':''"
  have ne: "dropWhile ?P extra \<noteq> []" using assms by (simp add: dropWhile_eq_Nil_conv)
  have hd: "hd (dropWhile ?P extra) = CHR '':''" using ne hd_dropWhile [of ?P extra] by simp
  have "dropWhile ?P extra = CHR '':'' # drop 1 (dropWhile ?P extra)"
    using ne hd by (cases "dropWhile ?P extra") simp_all
  then have "extra = takeWhile ?P extra @ CHR '':'' # drop 1 (dropWhile ?P extra)"
    using takeWhile_dropWhile_id [of ?P extra] by simp
  moreover have "CHR '':'' \<notin> set (takeWhile ?P extra)"
    using set_takeWhileD by fastforce
  ultimately show ?thesis by (simp add: split_first_colon_def)
qed

lemma extra_target_eq:
  "extra_target m f t e =
     (snd (split_first_colon e),
      fetch_cmd (resolve_account m (fst (split_first_colon e))) f t (snd (split_first_colon e)))"
  by (simp add: extra_target_def split_def Let_def)

lemma resolve_account_map:
  "resolve_account (account_map P W) k =
     (if k = ''personal'' then P else if k = ''work'' then W else k)"
  by (simp add: resolve_account_def account_map_def)

lemma submit_extras_warnings:
  "fst (submit_extras m f t xs) = map warning_text (filter (\<lambda>e. CHR '':'' \<notin> set e) xs)"
  by (induction xs) (simp_all add: split_def Let_def)

lemma submit_extras_futures:
  "snd (submit_extras m f t xs) = map (extra_target m f t) (filter (\<lambda>e. CHR '':'' \<in> set e) xs)"
  by (induction xs) (simp_all add: split_def Let_def)

lemma submit_extras_eq:
  "submit_extras m f t xs =
     (map warning_text (filter (\<lambda>e. CHR '':'' \<notin> set e) xs),
      map (extra_target m f t) (filter (\<lambda>e. CHR '':'' \<in> set e) xs))"
  using submit_extras_warnings [of m f t xs] submit_extras_futures [of m f t xs]
  by (simp add: prod_eq_iff)

lemma main_usage:
  "length args < 4 \<Longrightarrow>
   main enc run (prog # args) =
     \<lparr>out_text = [], err_lines = [usage_text], exit_status = 1, launched = [], uncaught = None\<rparr>"
  by (simp add: main_def)

lemma print_extras_all:
  "print_extras enc run futs = print_all enc run (map (\<lambda>p. (extra_marker (fst p), snd p)) futs)"
proof (induction futs)
  case Nil
  show ?case by (rule ext) simp
next
  case (Cons p futs)
  obtain cal_id c where p: "p = (cal_id, c)" by (cases p)
  show ?case by (rule ext) (simp add: p Cons.IH)
qed

lemma print_all_Cons:
  "print_all enc run ((m, c) # rest) =
     print_section enc m (future_result run c) (print_all enc run rest)"
  by (rule ext) simp

lemma main_unfold:
  "main enc run (prog # P # W # F # T # extras) =
     \<lparr>out_text = fst (print_all enc run (targets P W F T extras) []),
      err_lines = map warning_text (filter (\<lambda>e. CHR '':'' \<notin> set e) extras),
      exit_status =
        (case snd (print_all enc run (targets P W F T extras) []) of None \<Rightarrow> 0 | Some e \<Rightarrow> 1),
      launched = map snd (targets P W F T extras),
      uncaught = snd (print_all enc run (targets P W F T extras) [])\<rparr>"
  by (simp add: main_def Let_def submit_extras_eq split_def print_extras_all targets_def
        comp_def print_all_Cons del: print_all.simps)

lemma spec_sections_targets:
  "concat (map section_text (spec_sections run P W F T extras)) =
     sections_of run (targets P W F T extras)"
  by (simp add: spec_sections_def targets_def sections_of_def comp_def)

lemma sections_of_append:
  "sections_of run (ts @ us) = sections_of run ts @ sections_of run us"
  by (simp add: sections_of_def)

lemma print_all_ok:
  "target_ok enc run (m, c) \<Longrightarrow>
   print_all enc run ((m, c) # ts) out =
     print_all enc run ts (out @ section_text (m, captured run c))"
  by (cases "run c")
    (simp_all add: target_ok_def print_section_def py_print_def future_result_def
       captured_def section_text_def)

lemma print_all_prefix:
  "list_all (target_ok enc run) pre \<Longrightarrow>
   print_all enc run (pre @ ts) out = print_all enc run ts (out @ sections_of run pre)"
proof (induction pre arbitrary: out)
  case Nil then show ?case by (simp add: sections_of_def)
next
  case (Cons t pre)
  obtain m c where t: "t = (m, c)" by (cases t)
  from Cons.prems t have ok: "target_ok enc run (m, c)" and rest: "list_all (target_ok enc run) pre"
    by simp_all
  show ?case
    using print_all_ok [OF ok] Cons.IH [OF rest]
    by (simp add: t sections_of_def)
qed

lemma print_all_raise:
  "encodable enc m \<Longrightarrow> run c = Inl e \<Longrightarrow>
   print_all enc run ((m, c) # ts) out = (out @ m @ [CHR 0x0A], Some e)"
  by (simp add: print_section_def py_print_def future_result_def)

lemma print_all_marker:
  "\<not> encodable enc m \<Longrightarrow>
   print_all enc run ((m, c) # ts) out = (out, Some UnicodeEncodeError)"
  by (simp add: print_section_def py_print_def)

lemma print_all_text:
  "encodable enc m \<Longrightarrow> run c = Inr r \<Longrightarrow> \<not> encodable enc (stdout r) \<Longrightarrow>
   print_all enc run ((m, c) # ts) out = (out @ m @ [CHR 0x0A], Some UnicodeEncodeError)"
  by (simp add: print_section_def py_print_def future_result_def)

lemma print_all_not_ok:
  "\<not> target_ok enc run (m, c) \<Longrightarrow> snd (print_all enc run ((m, c) # ts) out) \<noteq> None"
  by (cases "run c"; cases "encodable enc m")
    (auto simp: target_ok_def print_section_def py_print_def future_result_def)

lemma print_all_none:
  "snd (print_all enc run ts out) = None \<longleftrightarrow> list_all (target_ok enc run) ts"
proof (induction ts arbitrary: out)
  case Nil then show ?case by simp
next
  case (Cons t ts)
  obtain m c where t: "t = (m, c)" by (cases t)
  show ?case
  proof (cases "target_ok enc run (m, c)")
    case True
    with print_all_ok [OF True] Cons.IH show ?thesis by (simp add: t)
  next
    case False
    with print_all_not_ok [OF False] show ?thesis by (simp add: t)
  qed
qed

lemma print_all_cong:
  "(\<And>c. future_result run c = future_result run' c) \<Longrightarrow>
   print_all enc run ts out = print_all enc run' ts out"
proof (induction ts arbitrary: out)
  case Nil then show ?case by simp
next
  case (Cons t ts)
  obtain m c where t: "t = (m, c)" by (cases t)
  have "print_all enc run ts = print_all enc run' ts"
    using Cons.IH [OF Cons.prems] by (rule ext)
  then show ?case by (simp add: t Cons.prems)
qed

lemma main_cong:
  assumes "\<And>c. future_result run c = future_result run' c"
  shows "main enc run argv = main enc run' argv"
proof (cases "length argv < 5")
  case True
  then show ?thesis by (simp add: main_def)
next
  case False
  then obtain prog P W F T extras where "argv = prog # P # W # F # T # extras"
    by (auto simp: numeral_eq_Suc Suc_le_length_iff not_less)
  then show ?thesis
    using print_all_cong [OF assms] by (simp add: main_unfold)
qed

lemma target_ok_iff:
  "target_ok enc run t \<longleftrightarrow>
     (\<exists>r. run (snd t) = Inr r) \<and> encodable enc (fst t) \<and> encodable enc (captured run (snd t))"
  by (cases "run (snd t)") (simp_all add: target_ok_def captured_def)

lemma all_targets_ok:
  "list_all (target_ok enc run) ts \<longleftrightarrow>
     (\<forall>c \<in> set (map snd ts). \<exists>r. run c = Inr r)
     \<and> (\<forall>t \<in> set ts. encodable enc (fst t) \<and> encodable enc (captured run (snd t)))"
  unfolding list_all_iff target_ok_iff by auto

lemma spec_sections_map:
  "spec_sections run P W F T extras =
     map (\<lambda>t. (fst t, captured run (snd t))) (targets P W F T extras)"
  by (simp add: spec_sections_def targets_def comp_def)

lemma main_all_ok:
  assumes "list_all (target_ok enc run) (targets P W F T extras)"
  shows "out_text (main enc run (prog # P # W # F # T # extras)) =
           concat (map section_text (spec_sections run P W F T extras))
         \<and> uncaught (main enc run (prog # P # W # F # T # extras)) = None
         \<and> exit_status (main enc run (prog # P # W # F # T # extras)) = 0"
  using print_all_prefix [OF assms, of "[]" "[]"]
  by (simp add: main_unfold spec_sections_targets)

lemma main_targets_ok:
  assumes "\<forall>c \<in> set (launched (main enc run (prog # P # W # F # T # extras))). \<exists>r. run c = Inr r"
    and "\<forall>s \<in> set (spec_sections run P W F T extras). encodable enc (fst s) \<and> encodable enc (snd s)"
  shows "list_all (target_ok enc run) (targets P W F T extras)"
  using assms unfolding all_targets_ok spec_sections_map by (simp add: main_unfold)

section \<open>Sections of the output\<close>

text \<open>
  Claim C1, as amended. For every invocation with at least four positional arguments
  (\<open>P\<close>, \<open>W\<close>, \<open>F\<close>, \<open>T\<close>) and \<open>N\<close> extra specifiers of which \<open>M\<close> lack a colon, in which
  every subprocess call returns (whatever its return code) and standard output can
  encode every marker and every captured text, standard output is exactly the
  concatenation of \<open>2 + (N - M)\<close> sections in the fixed order PERSONAL, WORK, then one
  EXTRA section per specifier with a colon, in command-line order; each section is the
  marker line immediately followed by the captured standard output of its target.
\<close>

theorem main_sections:
  assumes "\<forall>c \<in> set (launched (main enc run (prog # P # W # F # T # extras))). \<exists>r. run c = Inr r"
    and "\<forall>s \<in> set (spec_sections run P W F T extras). encodable enc (fst s) \<and> encodable enc (snd s)"
  shows "out_text (main enc run (prog # P # W # F # T # extras)) =
           concat (map section_text (spec_sections run P W F T extras))
         \<and> length (spec_sections run P W F T extras) =
             2 + (length extras - length (filter (\<lambda>e. CHR '':'' \<notin> set e) extras))
         \<and> map fst (spec_sections run P W F T extras) =
             ''===PERSONAL==='' # ''===WORK===''
             # map (\<lambda>e. extra_marker (snd (split_first_colon e)))
                 (filter (\<lambda>e. CHR '':'' \<in> set e) extras)"
proof -
  from main_all_ok [OF main_targets_ok [OF assms]]
  have "out_text (main enc run (prog # P # W # F # T # extras)) =
          concat (map section_text (spec_sections run P W F T extras))"
    by simp
  moreover have "length (filter (\<lambda>e. CHR '':'' \<in> set e) extras) =
      length extras - length (filter (\<lambda>e. CHR '':'' \<notin> set e) extras)"
    using sum_length_filter_compl [of "\<lambda>e. CHR '':'' \<in> set e" extras] by simp
  then have "length (spec_sections run P W F T extras) =
             2 + (length extras - length (filter (\<lambda>e. CHR '':'' \<notin> set e) extras))"
    by (simp add: spec_sections_def)
  moreover have "map fst (spec_sections run P W F T extras) =
             ''===PERSONAL==='' # ''===WORK===''
             # map (\<lambda>e. extra_marker (snd (split_first_colon e)))
                 (filter (\<lambda>e. CHR '':'' \<in> set e) extras)"
    by (simp add: spec_sections_def extra_target_eq comp_def)
  ultimately show ?thesis by blast
qed

theorem main_sections_witness:
  "out_text (main strict_stdout stub_run
        [''fetch_events.py'', ''personal'', ''work'', ''2026-02-20'', ''2026-02-20'',
         ''bad'', ''work:cal123'']) =
       concat (map section_text
         [(''===PERSONAL==='', ''P-DATA''), (''===WORK==='', ''W-DATA''),
          (''===EXTRA:cal123==='', ''W-DATA'')])
   \<and> length (spec_sections stub_run ''personal'' ''work'' ''2026-02-20'' ''2026-02-20''
        [''bad'', ''work:cal123'']) = 3"
proof -
  have h: "\<forall>c \<in> set (launched (main strict_stdout stub_run
        [''fetch_events.py'', ''personal'', ''work'', ''2026-02-20'', ''2026-02-20'',
         ''bad'', ''work:cal123''])). \<exists>r. stub_run c = Inr r"
    by (simp add: stub_run_def)
  have s: "spec_sections stub_run ''personal'' ''work'' ''2026-02-20'' ''2026-02-20''
        [''bad'', ''work:cal123''] =
         [(''===PERSONAL==='', ''P-DATA''), (''===WORK==='', ''W-DATA''),
          (''===EXTRA:cal123==='', ''W-DATA'')]"
    by (simp add: spec_sections_def captured_def stub_run_def extra_target_eq
          split_first_colon_def resolve_account_map fetch_cmd_def extra_marker_def)
  have e: "\<forall>s \<in> set (spec_sections stub_run ''personal'' ''work'' ''2026-02-20''
        ''2026-02-20'' [''bad'', ''work:cal123'']).
        encodable strict_stdout (fst s) \<and> encodable strict_stdout (snd s)"
    unfolding s by (simp add: encodable_def is_ascii_def)
  from main_sections [OF h e] s show ?thesis by simp
qed

text \<open>
  Claim C1 as stated, for every invocation with four positional arguments, fails in two
  ways. Where the tool cannot be started, the first awaited result raises, and standard
  output holds the PERSONAL marker alone. Where every call returns but a calendar id
  holds a character that a strict standard output cannot encode, the print of its
  marker raises: standard output stops after the WORK section and the exit status is 1.
\<close>

theorem main_sections_counterexample:
  "out_text (main lenient_stdout gog_missing
       [''fetch_events.py'', ''personal'', ''work'', ''2026-02-20'', ''2026-02-20''])
     = ''===PERSONAL==='' @ [CHR 0x0A]
   \<and> out_text (main lenient_stdout gog_missing
       [''fetch_events.py'', ''personal'', ''work'', ''2026-02-20'', ''2026-02-20''])
     \<noteq> concat (map section_text
         (spec_sections gog_missing ''personal'' ''work'' ''2026-02-20'' ''2026-02-20'' []))
   \<and> out_text (main strict_stdout stub_run
       [''fetch_events.py'', ''personal'', ''work'', ''f'', ''t'', ''work:c'' @ [CHR 0xFF]])
     = concat (map section_text [(''===PERSONAL==='', ''P-DATA''), (''===WORK==='', ''W-DATA'')])
   \<and> uncaught (main strict_stdout stub_run
       [''fetch_events.py'', ''personal'', ''work'', ''f'', ''t'', ''work:c'' @ [CHR 0xFF]])
     = Some UnicodeEncodeError
   \<and> exit_status (main strict_stdout stub_run
       [''fetch_events.py'', ''personal'', ''work'', ''f'', ''t'', ''work:c'' @ [CHR 0xFF]])
     = 1"
  by (simp add: main_unfold targets_def print_section_def future_result_def gog_missing_def
        py_print_def spec_sections_def section_text_def encodable_def is_ascii_def
        lenient_stdout_def strict_stdout_def stub_run_def extra_target_eq
        split_first_colon_def extra_marker_def captured_def fetch_cmd_def)

section \<open>Argument count\<close>

text \<open>
  Claim C3. With fewer than four positional arguments the run prints the usage text,
  which starts with \<^verbatim>\<open>Usage:\<close>, to the error stream, exits with status 1 and launches
  no subprocess (nothing is written to standard output either). With at least four, the
  check passes: the usage text is not printed and the personal and the work fetch are
  launched.
\<close>

theorem usage_error:
  "(length args < 4 \<longrightarrow>
      main enc run (prog # args) =
        \<lparr>out_text = [], err_lines = [usage_text], exit_status = 1, launched = [],
         uncaught = None\<rparr>
      \<and> take 6 usage_text = ''Usage:'')
   \<and> usage_text \<notin> set (err_lines (main enc run (prog # P # W # F # T # extras)))
   \<and> take 2 (launched (main enc run (prog # P # W # F # T # extras))) =
        [fetch_cmd P F T [], fetch_cmd W F T []]"
proof -
  have "usage_text \<noteq> warning_text e" for e
    by (simp add: usage_text_def warning_text_def)
  then have "usage_text \<notin> set (err_lines (main enc run (prog # P # W # F # T # extras)))"
    by (auto simp: main_unfold)
  then show ?thesis
    by (simp add: main_usage main_unfold targets_def usage_text_def)
qed

theorem usage_error_witness:
  "length [''personal'', ''work'', ''2026-02-20''] < 4
   \<and> exit_status (main strict_stdout gog_missing
         [''fetch_events.py'', ''personal'', ''work'', ''2026-02-20'']) = 1
   \<and> launched (main strict_stdout gog_missing
         [''fetch_events.py'', ''personal'', ''work'', ''2026-02-20'']) = []
   \<and> err_lines (main strict_stdout gog_missing
         [''fetch_events.py'', ''personal'', ''work'', ''2026-02-20''])
       = [usage_text]"
  using usage_error [where args = "[''personal'', ''work'', ''2026-02-20'']"
      and run = gog_missing and prog = "''fetch_events.py''" and enc = strict_stdout]
  by simp

section \<open>Extra specifiers\<close>

text \<open>
  Claim C4. For an extra specifier with a colon, the prefix \<open>k\<close> before the first colon
  is resolved so: \<^verbatim>\<open>personal\<close> is the first positional argument, \<^verbatim>\<open>work\<close> the second, any
  other prefix is the account itself. The fetch for the specifier is launched with the
  resolved account.
\<close>

theorem alias_resolution:
  assumes "CHR '':'' \<notin> set k"
  shows "extra_target (account_map P W) F T (k @ CHR '':'' # X) =
           (X, fetch_cmd (if k = ''personal'' then P else if k = ''work'' then W else k) F T X)
         \<and> resolve_account (account_map P W) ''personal'' = P
         \<and> resolve_account (account_map P W) ''work'' = W
         \<and> (k \<noteq> ''personal'' \<and> k \<noteq> ''work'' \<longrightarrow> resolve_account (account_map P W) k = k)
         \<and> (k @ CHR '':'' # X \<in> set extras \<longrightarrow>
              fetch_cmd (if k = ''personal'' then P else if k = ''work'' then W else k) F T X
                \<in> set (launched (main enc run (prog # P # W # F # T # extras))))"
proof -
  have t: "extra_target (account_map P W) F T (k @ CHR '':'' # X) =
           (X, fetch_cmd (if k = ''personal'' then P else if k = ''work'' then W else k) F T X)"
    by (simp add: extra_target_eq split_first_colon_append [OF assms] resolve_account_map)
  have "k @ CHR '':'' # X \<in> set extras \<Longrightarrow>
        snd (extra_target (account_map P W) F T (k @ CHR '':'' # X))
          \<in> set (launched (main enc run (prog # P # W # F # T # extras)))"
    by (simp add: main_unfold targets_def comp_def)
  with t show ?thesis by (simp add: resolve_account_map)
qed

theorem alias_resolution_witness:
  "CHR '':'' \<notin> set ''foo''
   \<and> extra_target (account_map ''me@gmail.com'' ''me@company.com'') ''f'' ''t'' ''foo:X'' =
       (''X'', fetch_cmd ''foo'' ''f'' ''t'' ''X'')
   \<and> fetch_cmd ''foo'' ''f'' ''t'' ''X''
       \<in> set (launched (main strict_stdout gog_missing
            [''fetch_events.py'', ''me@gmail.com'', ''me@company.com'', ''f'', ''t'', ''foo:X'']))"
  using alias_resolution [where k = "''foo''" and X = "''X''" and P = "''me@gmail.com''"
      and W = "''me@company.com''" and F = "''f''" and T = "''t''" and extras = "[''foo:X'']"
      and run = gog_missing and prog = "''fetch_events.py''" and enc = strict_stdout]
  by simp

text \<open>
  Claim C5. Every extra specifier without a colon gives exactly one warning line, of
  the form stated, on the error stream, in the order of the specifiers, and nothing
  else is printed there; the specifier creates no fetch target and the loop goes on
  with the remaining specifiers. Standard output, the subprocesses launched and the
  exit status are those of the same invocation without the malformed specifiers.
\<close>

theorem malformed_extra_warning:
  "err_lines (main enc run (prog # P # W # F # T # extras)) =
     map warning_text (filter (\<lambda>e. CHR '':'' \<notin> set e) extras)
   \<and> warning_text extra =
       ''Warning: skipping invalid extra calendar '' @ [CHR 0x27] @ extra @ [CHR 0x27]
       @ '' (expected account:calendarId)''
   \<and> main enc run (prog # P # W # F # T # filter (\<lambda>e. CHR '':'' \<in> set e) extras) =
       (main enc run (prog # P # W # F # T # extras))\<lparr>err_lines := []\<rparr>
   \<and> (CHR '':'' \<notin> set extra \<longrightarrow>
        submit_extras m F T (extra # rest) =
          (warning_text extra # fst (submit_extras m F T rest), snd (submit_extras m F T rest)))"
proof (intro conjI impI)
  show "err_lines (main enc run (prog # P # W # F # T # extras)) =
     map warning_text (filter (\<lambda>e. CHR '':'' \<notin> set e) extras)"
    by (simp add: main_unfold)
  show "warning_text extra =
       ''Warning: skipping invalid extra calendar '' @ [CHR 0x27] @ extra @ [CHR 0x27]
       @ '' (expected account:calendarId)''"
    by (simp add: warning_text_def)
  show "main enc run (prog # P # W # F # T # filter (\<lambda>e. CHR '':'' \<in> set e) extras) =
       (main enc run (prog # P # W # F # T # extras))\<lparr>err_lines := []\<rparr>"
    by (simp add: main_unfold targets_def)
  show "submit_extras m F T (extra # rest) =
          (warning_text extra # fst (submit_extras m F T rest), snd (submit_extras m F T rest))"
    if "CHR '':'' \<notin> set extra"
    using that by (simp add: split_def Let_def)
qed

theorem malformed_extra_warning_witness:
  "CHR '':'' \<notin> set ''bad''
   \<and> submit_extras (account_map ''p'' ''w'') ''f'' ''t'' [''bad'', ''work:c''] =
       ([''Warning: skipping invalid extra calendar '' @ [CHR 0x27] @ ''bad'' @ [CHR 0x27]
           @ '' (expected account:calendarId)''],
        [(''c'', fetch_cmd ''w'' ''f'' ''t'' ''c'')])"
  using malformed_extra_warning [where extra = "''bad''" and m = "account_map ''p'' ''w''"
      and F = "''f''" and T = "''t''" and rest = "[''work:c'']"]
  by (simp add: warning_text_def extra_target_eq split_first_colon_def resolve_account_map)

text \<open>
  Claim C6. An extra specifier with a colon is split at its first colon only: the
  alias or account is the text before it, the calendar id is all that follows, further
  colons included.
\<close>

theorem split_on_first_colon:
  "(CHR '':'' \<notin> set k \<longrightarrow>
      split_first_colon (k @ CHR '':'' # rest) = (k, rest)
      \<and> fst (extra_target m F T (k @ CHR '':'' # rest)) = rest)
   \<and> (CHR '':'' \<in> set extra \<longrightarrow>
        extra = fst (split_first_colon extra) @ CHR '':'' # snd (split_first_colon extra)
        \<and> CHR '':'' \<notin> set (fst (split_first_colon extra)))"
  using split_first_colon_join [of extra]
  by (simp add: split_first_colon_append extra_target_eq)

theorem split_on_first_colon_witness:
  "CHR '':'' \<notin> set ''personal''
   \<and> split_first_colon ''personal:x:y'' = (''personal'', ''x:y'')
   \<and> fst (extra_target (account_map ''me'' ''job'') ''f'' ''t'' ''personal:x:y'') = ''x:y''"
  using split_on_first_colon [where k = "''personal''" and rest = "''x:y''"
      and m = "account_map ''me'' ''job''" and F = "''f''" and T = "''t''"]
  by simp



section \<open>Failures of the external tool\<close>

text \<open>
  Claim C7, as amended. The run looks at nothing of a subprocess but its captured
  standard output: two tools that agree on it (and on raising) give the same run,
  whatever their return codes and error streams. When every call returns, with any
  return code and any text, empty included, and standard output can encode the markers
  and the texts, the exit status is 0, no exception is raised and each captured text is
  printed under its marker. When the call of some launched command raises, the run ends
  with an uncaught exception and exit status 1. The run ends at the first target, in
  print order, that fails: if its call raised, with that exception, after the sections
  of the targets before it and its own marker line; if standard output cannot encode
  its marker or its text, with \<^verbatim>\<open>UnicodeEncodeError\<close>, before the line that cannot be
  encoded.
\<close>

theorem subprocess_failures:
  "((\<forall>c. map_sum id stdout (run c) = map_sum id stdout (run' c)) \<longrightarrow>
       main enc run argv = main enc run' argv)
   \<and> ((\<forall>c \<in> set (launched (main enc run (prog # P # W # F # T # extras))). \<exists>r. run c = Inr r)
        \<and> (\<forall>s \<in> set (spec_sections run P W F T extras).
              encodable enc (fst s) \<and> encodable enc (snd s)) \<longrightarrow>
        exit_status (main enc run (prog # P # W # F # T # extras)) = 0
        \<and> uncaught (main enc run (prog # P # W # F # T # extras)) = None
        \<and> out_text (main enc run (prog # P # W # F # T # extras)) =
            concat (map section_text (spec_sections run P W F T extras)))
   \<and> ((\<exists>c \<in> set (launched (main enc run (prog # P # W # F # T # extras))). \<exists>e. run c = Inl e) \<longrightarrow>
        exit_status (main enc run (prog # P # W # F # T # extras)) = 1
        \<and> uncaught (main enc run (prog # P # W # F # T # extras)) \<noteq> None)
   \<and> (targets P W F T extras = pre @ (m, c) # post \<and> list_all (target_ok enc run) pre
        \<and> encodable enc m \<and> run c = Inl e \<longrightarrow>
        uncaught (main enc run (prog # P # W # F # T # extras)) = Some e
        \<and> exit_status (main enc run (prog # P # W # F # T # extras)) = 1
        \<and> out_text (main enc run (prog # P # W # F # T # extras)) =
            sections_of run pre @ m @ [CHR 0x0A])
   \<and> (targets P W F T extras = pre @ (m, c) # post \<and> list_all (target_ok enc run) pre
        \<and> \<not> encodable enc m \<longrightarrow>
        uncaught (main enc run (prog # P # W # F # T # extras)) = Some UnicodeEncodeError
        \<and> exit_status (main enc run (prog # P # W # F # T # extras)) = 1
        \<and> out_text (main enc run (prog # P # W # F # T # extras)) = sections_of run pre)
   \<and> (targets P W F T extras = pre @ (m, c) # post \<and> list_all (target_ok enc run) pre
        \<and> encodable enc m \<and> run c = Inr r \<and> \<not> encodable enc (stdout r) \<longrightarrow>
        uncaught (main enc run (prog # P # W # F # T # extras)) = Some UnicodeEncodeError
        \<and> exit_status (main enc run (prog # P # W # F # T # extras)) = 1
        \<and> out_text (main enc run (prog # P # W # F # T # extras)) =
            sections_of run pre @ m @ [CHR 0x0A])"
proof -
  let ?m = "main enc run (prog # P # W # F # T # extras)"
  let ?ts = "targets P W F T extras"
  have a: "main enc run argv = main enc run' argv"
    if "\<forall>c. map_sum id stdout (run c) = map_sum id stdout (run' c)"
    using that by (intro main_cong) (simp add: future_result_def)
  have b: "exit_status ?m = 0 \<and> uncaught ?m = None
        \<and> out_text ?m = concat (map section_text (spec_sections run P W F T extras))"
    if "(\<forall>c \<in> set (launched ?m). \<exists>r. run c = Inr r)
        \<and> (\<forall>s \<in> set (spec_sections run P W F T extras).
              encodable enc (fst s) \<and> encodable enc (snd s))"
    using main_all_ok [OF main_targets_ok, of enc run prog P W F T extras] that by blast
  have c: "exit_status ?m = 1 \<and> uncaught ?m \<noteq> None"
    if h: "\<exists>c \<in> set (launched ?m). \<exists>e. run c = Inl e"
  proof -
    from h obtain t x where t: "t \<in> set ?ts" and x: "run (snd t) = Inl x"
      by (auto simp: main_unfold)
    from x have "\<not> target_ok enc run t" by (simp add: target_ok_def)
    with t have "\<not> list_all (target_ok enc run) ?ts"
      by (auto simp: list_all_iff)
    then have "snd (print_all enc run ?ts []) \<noteq> None"
      by (simp add: print_all_none)
    then show ?thesis by (auto simp: main_unfold)
  qed
  have fail: "uncaught ?m = Some x \<and> exit_status ?m = 1 \<and> out_text ?m = out"
    if ts: "?ts = pre @ (m, c) # post" and ok: "list_all (target_ok enc run) pre"
      and p: "print_all enc run ((m, c) # post) (sections_of run pre) = (out, Some x)"
    for x out
    using print_all_prefix [OF ok, of "(m, c) # post" "[]"] p
    by (simp add: main_unfold ts)
  have d: "uncaught ?m = Some e \<and> exit_status ?m = 1
        \<and> out_text ?m = sections_of run pre @ m @ [CHR 0x0A]"
    if "?ts = pre @ (m, c) # post \<and> list_all (target_ok enc run) pre
        \<and> encodable enc m \<and> run c = Inl e"
    using that by (intro fail) (simp_all add: print_all_raise del: print_all.simps)
  have e: "uncaught ?m = Some UnicodeEncodeError \<and> exit_status ?m = 1
        \<and> out_text ?m = sections_of run pre"
    if "?ts = pre @ (m, c) # post \<and> list_all (target_ok enc run) pre \<and> \<not> encodable enc m"
    using that by (intro fail) (simp_all add: print_all_marker del: print_all.simps)
  have f: "uncaught ?m = Some UnicodeEncodeError \<and> exit_status ?m = 1
        \<and> out_text ?m = sections_of run pre @ m @ [CHR 0x0A]"
    if "?ts = pre @ (m, c) # post \<and> list_all (target_ok enc run) pre
        \<and> encodable enc m \<and> run c = Inr r \<and> \<not> encodable enc (stdout r)"
    using that by (intro fail) (simp_all add: print_all_text del: print_all.simps)
  from a b c d e f show ?thesis by blast
qed

theorem subprocess_failures_witness:
  "exit_status (main strict_stdout failing_run
      [''fetch_events.py'', ''personal'', ''work'', ''a'', ''b'']) = 0
   \<and> out_text (main strict_stdout failing_run
      [''fetch_events.py'', ''personal'', ''work'', ''a'', ''b'']) =
       ''===PERSONAL==='' @ [CHR 0x0A, CHR 0x0A] @ ''===WORK==='' @ [CHR 0x0A, CHR 0x0A]
   \<and> exit_status (main strict_stdout gog_missing
      [''fetch_events.py'', ''personal'', ''work'', ''a'', ''b'']) = 1
   \<and> uncaught (main strict_stdout work_missing
      [''fetch_events.py'', ''personal'', ''work'', ''a'', ''b'']) = Some OSError
   \<and> out_text (main strict_stdout work_missing
      [''fetch_events.py'', ''personal'', ''work'', ''a'', ''b'']) =
       ''===PERSONAL==='' @ [CHR 0x0A] @ ''P-DATA'' @ [CHR 0x0A] @ ''===WORK==='' @ [CHR 0x0A]"
proof -
  let ?argv = "[''fetch_events.py'', ''personal'', ''work'', ''a'', ''b'']"
  have ts: "targets ''personal'' ''work'' ''a'' ''b'' [] =
      [(''===PERSONAL==='', fetch_cmd ''personal'' ''a'' ''b'' [])]
      @ (''===WORK==='', fetch_cmd ''work'' ''a'' ''b'' []) # []"
    by (simp add: targets_def)
  have h1: "(\<forall>c \<in> set (launched (main strict_stdout failing_run ?argv)).
        \<exists>r. failing_run c = Inr r)
      \<and> (\<forall>s \<in> set (spec_sections failing_run ''personal'' ''work'' ''a'' ''b'' []).
            encodable strict_stdout (fst s) \<and> encodable strict_stdout (snd s))"
    by (simp add: failing_run_def spec_sections_def captured_def encodable_def is_ascii_def)
  have h2: "\<exists>c \<in> set (launched (main strict_stdout gog_missing ?argv)).
      \<exists>e. gog_missing c = Inl e"
    by (auto simp: gog_missing_def main_unfold targets_def)
  have h3: "list_all (target_ok strict_stdout work_missing)
        [(''===PERSONAL==='', fetch_cmd ''personal'' ''a'' ''b'' [])]
      \<and> encodable strict_stdout ''===WORK===''
      \<and> work_missing (fetch_cmd ''work'' ''a'' ''b'' []) = Inl OSError"
    by (simp add: target_ok_def work_missing_def fetch_cmd_def encodable_def is_ascii_def)
  have s: "concat (map section_text (spec_sections failing_run ''personal'' ''work'' ''a'' ''b'' []))
      = ''===PERSONAL==='' @ [CHR 0x0A, CHR 0x0A] @ ''===WORK==='' @ [CHR 0x0A, CHR 0x0A]"
    by (simp add: spec_sections_def section_text_def captured_def failing_run_def)
  have p: "sections_of work_missing [(''===PERSONAL==='', fetch_cmd ''personal'' ''a'' ''b'' [])]
      = ''===PERSONAL==='' @ [CHR 0x0A] @ ''P-DATA'' @ [CHR 0x0A]"
    by (simp add: sections_of_def section_text_def captured_def work_missing_def fetch_cmd_def)
  from subprocess_failures [where run = failing_run and prog = "''fetch_events.py''"
      and P = "''personal''" and W = "''work''" and F = "''a''" and T = "''b''" and extras = "[]"
      and enc = strict_stdout]
    h1 s
  have "exit_status (main strict_stdout failing_run ?argv) = 0
   \<and> out_text (main strict_stdout failing_run ?argv) =
       ''===PERSONAL==='' @ [CHR 0x0A, CHR 0x0A] @ ''===WORK==='' @ [CHR 0x0A, CHR 0x0A]"
    by simp
  moreover from subprocess_failures [where run = gog_missing and prog = "''fetch_events.py''"
      and P = "''personal''" and W = "''work''" and F = "''a''" and T = "''b''" and extras = "[]"
      and enc = strict_stdout]
    h2
  have "exit_status (main strict_stdout gog_missing ?argv) = 1"
    by blast
  moreover from subprocess_failures [where run = work_missing and prog = "''fetch_events.py''"
      and P = "''personal''" and W = "''work''" and F = "''a''" and T = "''b''" and extras = "[]"
      and enc = strict_stdout
      and pre = "[(''===PERSONAL==='', fetch_cmd ''personal'' ''a'' ''b'' [])]"
      and m = "''===WORK===''" and c = "fetch_cmd ''work'' ''a'' ''b'' []" and post = "[]"
      and e = OSError]
    ts h3
  have "uncaught (main strict_stdout work_missing ?argv) = Some OSError
   \<and> out_text (main strict_stdout work_missing ?argv) =
       sections_of work_missing [(''===PERSONAL==='', fetch_cmd ''personal'' ''a'' ''b'' [])]
       @ ''===WORK==='' @ [CHR 0x0A]"
    by blast
  ultimately show ?thesis unfolding p by simp
qed

text \<open>
  Claim C7 as stated fails for an exception of the launch: where the tool cannot be
  started, the run prints the PERSONAL marker, then ends with the uncaught
  \<^verbatim>\<open>OSError\<close> and exit status 1.
\<close>

theorem subprocess_failures_counterexample:
  "exit_status (main lenient_stdout gog_missing
      [''fetch_events.py'', ''personal'', ''work'', ''2026-02-20'', ''2026-02-20'']) = 1
   \<and> uncaught (main lenient_stdout gog_missing
      [''fetch_events.py'', ''personal'', ''work'', ''2026-02-20'', ''2026-02-20'']) = Some OSError
   \<and> out_text (main lenient_stdout gog_missing
      [''fetch_events.py'', ''personal'', ''work'', ''2026-02-20'', ''2026-02-20''])
       = ''===PERSONAL==='' @ [CHR 0x0A]"
  by (simp add: main_unfold targets_def print_section_def future_result_def gog_missing_def
        py_print_def encodable_def is_ascii_def)

section \<open>End-to-end example\<close>

text \<open>
  Claim C8. For \<^verbatim>\<open>fetch_events personal work 2026-02-20 2026-02-20\<close> with a tool that
  returns \<^verbatim>\<open>P-DATA\<close> for the personal command and \<^verbatim>\<open>W-DATA\<close> for the work command,
  standard output is exactly the four lines \<^verbatim>\<open>===PERSONAL===\<close>, \<^verbatim>\<open>P-DATA\<close>,
  \<^verbatim>\<open>===WORK===\<close>, \<^verbatim>\<open>W-DATA\<close>, whatever the encoding of standard output; nothing is
  printed to the error stream and the exit status is 0.
\<close>

theorem example_two_accounts:
  assumes "run (fetch_cmd ''personal'' ''2026-02-20'' ''2026-02-20'' []) = Inr rp"
    and "stdout rp = ''P-DATA''"
    and "run (fetch_cmd ''work'' ''2026-02-20'' ''2026-02-20'' []) = Inr rw"
    and "stdout rw = ''W-DATA''"
  shows "out_text (main enc run [prog, ''personal'', ''work'', ''2026-02-20'', ''2026-02-20'']) =
           ''===PERSONAL==='' @ [CHR 0x0A] @ ''P-DATA'' @ [CHR 0x0A]
           @ ''===WORK==='' @ [CHR 0x0A] @ ''W-DATA'' @ [CHR 0x0A]
         \<and> err_lines (main enc run [prog, ''personal'', ''work'', ''2026-02-20'', ''2026-02-20'']) = []
         \<and> exit_status (main enc run [prog, ''personal'', ''work'', ''2026-02-20'', ''2026-02-20'']) = 0"
  using assms
  by (simp add: main_unfold targets_def print_section_def future_result_def py_print_def
        encodable_def is_ascii_def)

theorem example_two_accounts_witness:
  "out_text (main strict_stdout stub_run
     [''fetch_events'', ''personal'', ''work'', ''2026-02-20'', ''2026-02-20'']) =
     ''===PERSONAL==='' @ [CHR 0x0A] @ ''P-DATA'' @ [CHR 0x0A]
     @ ''===WORK==='' @ [CHR 0x0A] @ ''W-DATA'' @ [CHR 0x0A]"
proof -
  have p: "stub_run (fetch_cmd ''personal'' ''2026-02-20'' ''2026-02-20'' []) =
      Inr \<lparr>returncode = 0, stdout = ''P-DATA'', stderr = []\<rparr>"
    by (simp add: stub_run_def fetch_cmd_def)
  have w: "stub_run (fetch_cmd ''work'' ''2026-02-20'' ''2026-02-20'' []) =
      Inr \<lparr>returncode = 0, stdout = ''W-DATA'', stderr = []\<rparr>"
    by (simp add: stub_run_def fetch_cmd_def)
  from example_two_accounts [OF p _ w, of strict_stdout "''fetch_events''"] show ?thesis by simp
qed

section \<open>Independence of the completion order\<close>

lemma main_step_submit:
  "pending s = Submit c # rest \<Longrightarrow>
   main_step enc s = Some (s\<lparr>pending := rest, futures := futures s @ [(c, None)]\<rparr>)"
  by (simp add: main_step_def)

lemma main_step_warn:
  "pending s = Warn w # rest \<Longrightarrow>
   main_step enc s = Some (s\<lparr>pending := rest, warned := warned s @ [w]\<rparr>)"
  by (simp add: main_step_def)

lemma main_step_print:
  "pending s = Print m # rest \<Longrightarrow> main_step enc s = Some (print_step enc m rest s)"
  by (simp add: main_step_def)

lemma main_step_result:
  "pending s = PrintResult i # rest \<Longrightarrow> i < length (futures s) \<Longrightarrow>
   snd (futures s ! i) = Some (Inr t) \<Longrightarrow>
   main_step enc s = Some (print_step enc t rest s)"
  by (simp add: main_step_def)

lemma main_step_raise:
  "pending s = PrintResult i # rest \<Longrightarrow> i < length (futures s) \<Longrightarrow>
   snd (futures s ! i) = Some (Inl e) \<Longrightarrow>
   main_step enc s = Some (s\<lparr>pending := [], raised := Some e\<rparr>)"
  by (simp add: main_step_def)

lemma main_step_blocked:
  "pending s = PrintResult i # rest \<Longrightarrow> main_step enc s = Some s' \<Longrightarrow>
   i < length (futures s) \<and> (\<exists>v. snd (futures s ! i) = Some v)"
  by (auto simp: main_step_def split: if_splits option.splits)

lemma print_step_fields:
  "futures (print_step enc t rest s) = futures s \<and> warned (print_step enc t rest s) = warned s"
  by (cases "py_print enc (printed s) t") (simp_all add: print_step_def)

lemma print_step_consistent:
  "consistent run s \<Longrightarrow> raised s = None \<Longrightarrow> consistent run (print_step enc t rest s)"
  by (cases "py_print enc (printed s) t") (simp_all add: print_step_def consistent_def)

lemma print_step_outcome:
  assumes "raised s = None"
  shows "final_outcome enc run (print_step enc t rest s) =
     (case py_print enc (printed s) t of
        Inr out1 \<Rightarrow> rest_of_run enc run rest (map fst (futures s)) out1 (warned s)
      | Inl x \<Rightarrow> \<lparr>out_text = printed s, err_lines = warned s, exit_status = 1,
                  launched = map fst (futures s), uncaught = Some x\<rparr>)"
  using assms
  by (cases "py_print enc (printed s) t")
    (simp_all add: print_step_def final_outcome_def outcome_of_def)

lemma main_step_final:
  assumes c: "consistent run s" and st: "main_step enc s = Some s'"
  shows "consistent run s' \<and> final_outcome enc run s' = final_outcome enc run s"
proof (cases "pending s")
  case Nil
  with st show ?thesis by (simp add: main_step_def)
next
  case (Cons i rest)
  from c Cons have r: "raised s = None" by (simp add: consistent_def)
  from c have fs: "list_all (\<lambda>f. snd f = None \<or> snd f = Some (future_result run (fst f)))
      (futures s)" by (simp add: consistent_def)
  show ?thesis
  proof (cases i)
    case (Submit cm)
    with Cons have p: "pending s = Submit cm # rest" by simp
    from st main_step_submit [OF p]
    have eq: "s' = s\<lparr>pending := rest, futures := futures s @ [(cm, None)]\<rparr>" by simp
    show ?thesis using fs r p by (simp add: eq consistent_def final_outcome_def)
  next
    case (Warn w)
    with Cons have p: "pending s = Warn w # rest" by simp
    from st main_step_warn [OF p]
    have eq: "s' = s\<lparr>pending := rest, warned := warned s @ [w]\<rparr>" by simp
    show ?thesis using fs r p by (simp add: eq consistent_def final_outcome_def)
  next
    case (Print m)
    with Cons have p: "pending s = Print m # rest" by simp
    from st main_step_print [OF p] have eq: "s' = print_step enc m rest s" by simp
    have "final_outcome enc run s = rest_of_run enc run (Print m # rest) (map fst (futures s))
        (printed s) (warned s)"
      using r p by (simp add: final_outcome_def)
    then show ?thesis
      unfolding eq using print_step_consistent [OF c r] print_step_outcome [OF r]
      by (simp split: sum.splits)
  next
    case (PrintResult k)
    with Cons have p: "pending s = PrintResult k # rest" by simp
    from main_step_blocked [OF p st] obtain v where k: "k < length (futures s)"
      and v: "snd (futures s ! k) = Some v" by blast
    from fs k have "snd (futures s ! k) = None
        \<or> snd (futures s ! k) = Some (future_result run (fst (futures s ! k)))"
      by (simp add: list_all_length)
    with v k have fr: "future_result run (map fst (futures s) ! k) = v" by simp
    have fo: "final_outcome enc run s = rest_of_run enc run (PrintResult k # rest)
        (map fst (futures s)) (printed s) (warned s)"
      using r p by (simp add: final_outcome_def)
    show ?thesis
    proof (cases v)
      case (Inl e)
      with v have "snd (futures s ! k) = Some (Inl e)" by simp
      from st main_step_raise [OF p k this]
      have eq: "s' = s\<lparr>pending := [], raised := Some e\<rparr>" by simp
      show ?thesis using fs r p fr Inl
        by (simp add: eq consistent_def final_outcome_def outcome_of_def)
    next
      case (Inr t)
      with v have "snd (futures s ! k) = Some (Inr t)" by simp
      from st main_step_result [OF p k this] have eq: "s' = print_step enc t rest s" by simp
      show ?thesis
        unfolding eq fo using print_step_consistent [OF c r] print_step_outcome [OF r] fr Inr
        by (simp split: sum.splits)
    qed
  qed
qed

lemma task_done_final:
  assumes c: "consistent run s" and st: "task_done run i s = Some s'"
  shows "consistent run s' \<and> final_outcome enc run s' = final_outcome enc run s"
proof -
  let ?v = "(fst (futures s ! i), Some (future_result run (fst (futures s ! i))))"
  from st have i: "i < length (futures s)"
    and eq: "s' = s\<lparr>futures := (futures s)[i := ?v]\<rparr>"
    by (auto simp: task_done_def split: if_splits)
  have m: "map fst ((futures s)[i := ?v]) = map fst (futures s)"
    using i by (simp add: map_update list_update_same_conv)
  from c have fs: "list_all (\<lambda>f. snd f = None \<or> snd f = Some (future_result run (fst f)))
      (futures s)" by (simp add: consistent_def)
  have "list_all (\<lambda>f. snd f = None \<or> snd f = Some (future_result run (fst f)))
      ((futures s)[i := ?v])"
    using fs i by (simp add: list_all_length nth_list_update)
  with c have "consistent run s'" by (simp add: consistent_def eq)
  moreover have "final_outcome enc run s' = final_outcome enc run s"
    using m by (cases "raised s") (simp_all add: final_outcome_def outcome_of_def eq)
  ultimately show ?thesis by simp
qed

lemma run_events_final:
  "consistent run s \<Longrightarrow> run_events enc run es s = Some s' \<Longrightarrow>
   consistent run s' \<and> final_outcome enc run s' = final_outcome enc run s"
proof (induction es arbitrary: s)
  case Nil then show ?case by simp
next
  case (Cons e es)
  from Cons.prems(2) obtain t where t: "step enc run e s = Some t"
    and r: "run_events enc run es t = Some s'"
    by (auto split: option.splits)
  have "consistent run t \<and> final_outcome enc run t = final_outcome enc run s"
  proof (cases e)
    case MainStep
    with t have "main_step enc s = Some t" by simp
    from main_step_final [OF Cons.prems(1) this] show ?thesis .
  next
    case (TaskDone i)
    with t have "task_done run i s = Some t" by simp
    from task_done_final [OF Cons.prems(1) this] show ?thesis .
  qed
  with Cons.IH [OF _ r] show ?case by simp
qed

lemma finished_final: "finished s \<Longrightarrow> final_outcome enc run s = outcome_of s"
  by (simp add: finished_def final_outcome_def outcome_of_def split: option.splits)

lemma rest_of_run_submits:
  "rest_of_run enc run (map (submit_instr m F T) extras @ rest) cs out err =
     rest_of_run enc run rest
       (cs @ map snd (map (extra_target m F T) (filter (\<lambda>e. CHR '':'' \<in> set e) extras)))
       out (err @ map warning_text (filter (\<lambda>e. CHR '':'' \<notin> set e) extras))"
  by (induction extras arbitrary: cs err) (simp_all add: submit_instr_def)

lemma rest_of_run_targets:
  "\<forall>j < length ts. cs ! (i + j) = snd (ts ! j) \<Longrightarrow>
   rest_of_run enc run (target_instrs i ts) cs out err =
     \<lparr>out_text = fst (print_all enc run ts out), err_lines = err,
      exit_status = (case snd (print_all enc run ts out) of None \<Rightarrow> 0 | Some e \<Rightarrow> 1),
      launched = cs, uncaught = snd (print_all enc run ts out)\<rparr>"
proof (induction ts arbitrary: i out)
  case Nil then show ?case by simp
next
  case (Cons p ts)
  obtain m c where p: "p = (m, c)" by (cases p)
  from Cons.prems have c: "cs ! i = c" using p by auto
  have "\<forall>j < length ts. cs ! (Suc i + j) = snd (ts ! j)"
  proof (intro allI impI)
    fix j assume "j < length ts"
    then have "Suc j < length (p # ts)" by simp
    with Cons.prems have "cs ! (i + Suc j) = snd ((p # ts) ! Suc j)" by blast
    then show "cs ! (Suc i + j) = snd (ts ! j)" by simp
  qed
  from Cons.IH [OF this] show ?case
    by (simp add: p c print_section_def split: sum.splits)
qed

lemma print_instrs_targets:
  "print_instrs i futs = target_instrs i (map (\<lambda>p. (extra_marker (fst p), snd p)) futs)"
proof (induction futs arbitrary: i)
  case Nil then show ?case by simp
next
  case (Cons p futs)
  obtain cal_id c where "p = (cal_id, c)" by (cases p)
  with Cons.IH show ?case by simp
qed

lemma main_thread_targets:
  "main_thread (prog # P # W # F # T # extras) =
     [Submit (fetch_cmd P F T []), Submit (fetch_cmd W F T [])]
     @ map (submit_instr (account_map P W) F T) extras
     @ target_instrs 0 (targets P W F T extras)"
  by (simp add: main_thread_def Let_def submit_extras_eq print_instrs_targets targets_def
        comp_def numeral_2_eq_2)

lemma main_thread_sequential:
  "rest_of_run enc run (main_thread (prog # P # W # F # T # extras)) [] [] [] =
     main enc run (prog # P # W # F # T # extras)"
proof -
  let ?ts = "targets P W F T extras"
  let ?cs = "[fetch_cmd P F T [], fetch_cmd W F T []]
      @ map snd (map (extra_target (account_map P W) F T)
          (filter (\<lambda>e. CHR '':'' \<in> set e) extras))"
  have cs: "?cs = map snd ?ts" by (simp add: targets_def comp_def)
  have idx: "\<forall>j < length ?ts. map snd ?ts ! (0 + j) = snd (?ts ! j)"
    by simp
  have "rest_of_run enc run (main_thread (prog # P # W # F # T # extras)) [] [] [] =
      rest_of_run enc run (target_instrs 0 ?ts) ?cs []
        (map warning_text (filter (\<lambda>e. CHR '':'' \<notin> set e) extras))"
    unfolding main_thread_targets
    using rest_of_run_submits [of enc run "account_map P W" F T extras "target_instrs 0 ?ts"
        "[fetch_cmd P F T [], fetch_cmd W F T []]" "[]" "[]"]
    by simp
  also have "\<dots> = rest_of_run enc run (target_instrs 0 ?ts) (map snd ?ts) []
        (map warning_text (filter (\<lambda>e. CHR '':'' \<notin> set e) extras))"
    unfolding cs ..
  also have "\<dots> = main enc run (prog # P # W # F # T # extras)"
    using rest_of_run_targets [OF idx, of enc run] by (simp add: main_unfold)
  finally show ?thesis .
qed

lemma argv_shape:
  "5 \<le> length argv \<Longrightarrow> \<exists>prog P W F T extras. argv = prog # P # W # F # T # extras"
  by (auto simp: numeral_eq_Suc Suc_le_length_iff)

lemma main_concurrent_sequential:
  assumes "main_concurrent enc run schedule argv = Some out"
  shows "out = main enc run argv"
proof (cases "length argv < 5")
  case True
  with assms show ?thesis by (simp add: main_concurrent_def main_def)
next
  case False
  then obtain prog P W F T extras where argv: "argv = prog # P # W # F # T # extras"
    using argv_shape [of argv] by auto
  let ?init = "\<lparr>pending = main_thread argv, futures = [], printed = [], warned = [],
      raised = None\<rparr>"
  from assms False obtain s where s: "run_events enc run schedule ?init = Some s"
    and f: "finished s" and out: "out = outcome_of s"
    by (auto simp: main_concurrent_def split: option.splits if_splits)
  have "consistent run ?init" by (simp add: consistent_def)
  from run_events_final [OF this s]
  have "final_outcome enc run s = final_outcome enc run ?init" by simp
  also have "\<dots> = main enc run argv"
    by (simp add: final_outcome_def argv main_thread_sequential)
  finally show ?thesis using finished_final [OF f, of enc run] out by simp
qed

subsection \<open>A complete run exists\<close>

lemma run_events_append:
  "run_events enc run (es1 @ es2) s =
     (case run_events enc run es1 s of None \<Rightarrow> None | Some t \<Rightarrow> run_events enc run es2 t)"
  by (induction es1 arbitrary: s) (simp_all split: option.splits)

lemma run_events_seq:
  "run_events enc run es1 s = Some t \<Longrightarrow> run_events enc run es2 t = Some u \<Longrightarrow>
   run_events enc run (es1 @ es2) s = Some u"
  by (simp add: run_events_append)

lemma submit_phase:
  "run_events enc run (replicate (length extras) MainStep)
     \<lparr>pending = map (submit_instr m F T) extras @ rest, futures = fs, printed = out,
      warned = err, raised = None\<rparr> =
   Some \<lparr>pending = rest,
         futures = fs @ map (\<lambda>c. (c, None))
           (map snd (map (extra_target m F T) (filter (\<lambda>e. CHR '':'' \<in> set e) extras))),
         printed = out,
         warned = err @ map warning_text (filter (\<lambda>e. CHR '':'' \<notin> set e) extras),
         raised = None\<rparr>"
proof (induction extras arbitrary: fs err)
  case Nil then show ?case by simp
next
  case (Cons e extras)
  show ?case
  proof (cases "CHR '':'' \<in> set e")
    case True
    then show ?thesis
      using Cons.IH [of "fs @ [(snd (extra_target m F T e), None)]" err]
      by (simp add: submit_instr_def main_step_def)
  next
    case False
    then show ?thesis
      using Cons.IH [of fs "err @ [warning_text e]"]
      by (simp add: submit_instr_def main_step_def)
  qed
qed

lemma completion_phase:
  "futures s = ds @ map (\<lambda>c. (c, None)) cs \<Longrightarrow>
   run_events enc run (map TaskDone [length ds ..< length ds + length cs]) s =
     Some (s\<lparr>futures := ds @ map (\<lambda>c. (c, Some (future_result run c))) cs\<rparr>)"
proof (induction cs arbitrary: ds s)
  case Nil then show ?case by simp
next
  case (Cons c cs)
  let ?t = "s\<lparr>futures := (ds @ [(c, Some (future_result run c))]) @ map (\<lambda>c. (c, None)) cs\<rparr>"
  have st: "task_done run (length ds) s = Some ?t"
    using Cons.prems by (simp add: task_done_def nth_append list_update_append)
  have ft: "futures ?t = (ds @ [(c, Some (future_result run c))]) @ map (\<lambda>c. (c, None)) cs"
    by simp
  have up: "[length ds ..< length ds + length (c # cs)] =
      length ds # [length (ds @ [(c, Some (future_result run c))])
                   ..< length (ds @ [(c, Some (future_result run c))]) + length cs]"
    by (subst upt_rec) simp
  show ?case
    unfolding up using st Cons.IH [OF ft] by simp
qed

lemma print_phase:
  "pending s = is \<Longrightarrow> list_all (\<lambda>f. snd f \<noteq> None) (futures s) \<Longrightarrow>
   list_all (\<lambda>i. case i of Submit c \<Rightarrow> False | Warn w \<Rightarrow> True | Print m \<Rightarrow> True
                  | PrintResult k \<Rightarrow> k < length (futures s)) is \<Longrightarrow>
   \<exists>n s'. run_events enc run (replicate n MainStep) s = Some s' \<and> finished s'"
proof (induction "is" arbitrary: s)
  case Nil
  then have "run_events enc run (replicate 0 MainStep) s = Some s \<and> finished s"
    by (simp add: finished_def)
  then show ?case by blast
next
  case (Cons i rest)
  note p = Cons.prems(1) [symmetric]
  have step_on: "\<exists>n s'. run_events enc run (replicate n MainStep) s = Some s' \<and> finished s'"
    if st: "main_step enc s = Some t" and pt: "pending t = rest" and ft: "futures t = futures s"
    for t
  proof -
    have d: "list_all (\<lambda>f. snd f \<noteq> None) (futures t)"
      using Cons.prems(2) unfolding ft .
    have k: "list_all (\<lambda>i. case i of Submit c \<Rightarrow> False | Warn w \<Rightarrow> True | Print m \<Rightarrow> True
                  | PrintResult k \<Rightarrow> k < length (futures t)) rest"
      using Cons.prems(3) unfolding ft by simp
    from Cons.IH [OF pt d k]
    have "\<exists>n s'. run_events enc run (replicate n MainStep) t = Some s' \<and> finished s'" .
    then obtain n s' where "run_events enc run (replicate n MainStep) t = Some s'" "finished s'"
      by blast
    with st have "run_events enc run (replicate (Suc n) MainStep) s = Some s' \<and> finished s'"
      by simp
    then show ?thesis by blast
  qed
  have stop_on: "\<exists>n s'. run_events enc run (replicate n MainStep) s = Some s' \<and> finished s'"
    if st: "main_step enc s = Some t" and pt: "pending t = []" and ft: "futures t = futures s"
    for t
  proof -
    from Cons.prems(2) pt ft have "finished t" by (simp add: finished_def)
    with st have "run_events enc run (replicate 1 MainStep) s = Some t \<and> finished t"
      by simp
    then show ?thesis by blast
  qed
  have print_on: "\<exists>n s'. run_events enc run (replicate n MainStep) s = Some s' \<and> finished s'"
    if st: "main_step enc s = Some (print_step enc x rest s)" for x
  proof (cases "py_print enc (printed s) x")
    case (Inl e)
    then show ?thesis by (intro stop_on [OF st]) (simp_all add: print_step_def)
  next
    case (Inr out)
    then show ?thesis by (intro step_on [OF st]) (simp_all add: print_step_def)
  qed
  show ?case
  proof (cases i)
    case (Submit c)
    with Cons.prems(3) show ?thesis by simp
  next
    case (Warn w)
    with p have "pending s = Warn w # rest" by simp
    then show ?thesis by (intro step_on [OF main_step_warn]) simp_all
  next
    case (Print m)
    with p have "pending s = Print m # rest" by simp
    from main_step_print [OF this] show ?thesis by (rule print_on)
  next
    case (PrintResult k)
    with p have ps: "pending s = PrintResult k # rest" by simp
    from Cons.prems(3) PrintResult have k: "k < length (futures s)" by simp
    with Cons.prems(2) obtain v where v: "snd (futures s ! k) = Some v"
      by (auto simp: list_all_length)
    show ?thesis
    proof (cases v)
      case (Inl e)
      with v have "snd (futures s ! k) = Some (Inl e)" by simp
      from main_step_raise [OF ps k this] show ?thesis by (rule stop_on) simp_all
    next
      case (Inr t)
      with v have "snd (futures s ! k) = Some (Inr t)" by simp
      from main_step_result [OF ps k this] show ?thesis by (rule print_on)
    qed
  qed
qed

lemma target_instrs_indices:
  "i + length ts \<le> n \<Longrightarrow>
   list_all (\<lambda>i. case i of Submit c \<Rightarrow> False | Warn w \<Rightarrow> True | Print m \<Rightarrow> True
                  | PrintResult k \<Rightarrow> k < n) (target_instrs i ts)"
proof (induction ts arbitrary: i)
  case Nil then show ?case by simp
next
  case (Cons p ts)
  obtain m c where "p = (m, c)" by (cases p)
  with Cons.prems Cons.IH [of "Suc i"] show ?case by simp
qed

lemma schedule_exists:
  "\<exists>schedule. main_concurrent enc run schedule argv = Some (main enc run argv)"
proof (cases "length argv < 5")
  case True
  then have "main_concurrent enc run [] argv = Some (main enc run argv)"
    by (simp add: main_concurrent_def main_def)
  then show ?thesis by blast
next
  case False
  then obtain prog P W F T extras where argv: "argv = prog # P # W # F # T # extras"
    using argv_shape [of argv] by auto
  let ?m = "account_map P W"
  let ?ts = "targets P W F T extras"
  let ?cs = "fetch_cmd P F T [] # fetch_cmd W F T []
      # map snd (map (extra_target ?m F T) (filter (\<lambda>e. CHR '':'' \<in> set e) extras))"
  let ?prints = "target_instrs 0 ?ts"
  let ?warnings = "map warning_text (filter (\<lambda>e. CHR '':'' \<notin> set e) extras)"
  let ?s0 = "\<lparr>pending = main_thread argv, futures = [], printed = [], warned = [],
      raised = None\<rparr>"
  let ?s1 = "\<lparr>pending = map (submit_instr ?m F T) extras @ ?prints,
      futures = [(fetch_cmd P F T [], None), (fetch_cmd W F T [], None)],
      printed = [], warned = [], raised = None\<rparr>"
  let ?s2 = "\<lparr>pending = ?prints, futures = map (\<lambda>c. (c, None)) ?cs,
      printed = [], warned = ?warnings, raised = None\<rparr>"
  let ?s3 = "?s2\<lparr>futures := [] @ map (\<lambda>c. (c, Some (future_result run c))) ?cs\<rparr>"
  have len: "length ?cs = length ?ts" by (simp add: targets_def)
  have e1: "run_events enc run [MainStep, MainStep] ?s0 = Some ?s1"
    by (simp add: argv main_thread_targets main_step_def)
  have e2: "run_events enc run (replicate (length extras) MainStep) ?s1 = Some ?s2"
    using submit_phase [of enc run extras ?m F T ?prints
        "[(fetch_cmd P F T [], None), (fetch_cmd W F T [], None)]" "[]" "[]"]
    by simp
  have "futures ?s2 = [] @ map (\<lambda>c. (c, None)) ?cs" by simp
  from completion_phase [OF this, of enc run]
  have e3: "run_events enc run (map TaskDone [0 ..< length ?cs]) ?s2 = Some ?s3" by simp
  have d: "list_all (\<lambda>f. snd f \<noteq> None) (futures ?s3)"
    by (simp add: list_all_iff)
  have k: "list_all (\<lambda>i. case i of Submit c \<Rightarrow> False | Warn w \<Rightarrow> True | Print m \<Rightarrow> True
                  | PrintResult k \<Rightarrow> k < length (futures ?s3)) ?prints"
    by (rule target_instrs_indices) (simp add: len [symmetric])
  have "pending ?s3 = ?prints" by simp
  from print_phase [OF this d k, of enc run] obtain n s'
    where e4: "run_events enc run (replicate n MainStep) ?s3 = Some s'" and f: "finished s'"
    by blast
  let ?schedule = "[MainStep, MainStep] @ replicate (length extras) MainStep
      @ map TaskDone [0 ..< length ?cs] @ replicate n MainStep"
  have "run_events enc run ?schedule ?s0 = Some s'"
    by (rule run_events_seq [OF e1 run_events_seq [OF e2 run_events_seq [OF e3 e4]]])
  with f False have c: "main_concurrent enc run ?schedule argv = Some (outcome_of s')"
    by (simp add: main_concurrent_def)
  from main_concurrent_sequential [OF c] c
  have "main_concurrent enc run ?schedule argv = Some (main enc run argv)" by simp
  then show ?thesis by (rule exI)
qed

text \<open>
  Claim C9. With each subprocess call a function of its command line, a complete run
  under any schedule (any interleaving of the main thread's steps with the completions
  of the tasks, in any order) leaves the outcome of the sequential reading \<open>main\<close>: the
  text on standard output and the warning lines are determined by the command-line
  arguments and the results per command, so two runs with the same inputs print the
  same. A complete run exists for every command line and every tool.
\<close>

theorem print_order_deterministic:
  "(\<exists>schedule. main_concurrent enc run schedule argv = Some (main enc run argv))
   \<and> (main_concurrent enc run schedule1 argv = Some out1 \<longrightarrow>
        main_concurrent enc run schedule2 argv = Some out2 \<longrightarrow>
        out1 = out2 \<and> out_text out1 = out_text (main enc run argv)
        \<and> err_lines out1 = err_lines (main enc run argv) \<and> out1 = main enc run argv)"
  using schedule_exists [of enc run argv]
    main_concurrent_sequential [of enc run schedule1 argv out1]
    main_concurrent_sequential [of enc run schedule2 argv out2]
  by blast

theorem print_order_deterministic_witness:
  "main_concurrent strict_stdout stub_run
     [MainStep, MainStep, TaskDone 1, MainStep, TaskDone 0, MainStep, MainStep, MainStep]
     [''fetch_events.py'', ''personal'', ''work'', ''2026-02-20'', ''2026-02-20'']
   = main_concurrent strict_stdout stub_run
     [MainStep, MainStep, TaskDone 0, TaskDone 1, MainStep, MainStep, MainStep, MainStep]
     [''fetch_events.py'', ''personal'', ''work'', ''2026-02-20'', ''2026-02-20'']
   \<and> main_concurrent strict_stdout stub_run
     [MainStep, MainStep, TaskDone 1, MainStep, TaskDone 0, MainStep, MainStep, MainStep]
     [''fetch_events.py'', ''personal'', ''work'', ''2026-02-20'', ''2026-02-20'']
   = Some (main strict_stdout stub_run
     [''fetch_events.py'', ''personal'', ''work'', ''2026-02-20'', ''2026-02-20''])"
proof -
  let ?argv = "[''fetch_events.py'', ''personal'', ''work'', ''2026-02-20'', ''2026-02-20'']"
  let ?s1 = "[MainStep, MainStep, TaskDone 1, MainStep, TaskDone 0, MainStep, MainStep, MainStep]"
  let ?s2 = "[MainStep, MainStep, TaskDone 0, TaskDone 1, MainStep, MainStep, MainStep, MainStep]"
  have "main_concurrent strict_stdout stub_run ?s1 ?argv \<noteq> None" by code_simp
  then obtain o1 where h1: "main_concurrent strict_stdout stub_run ?s1 ?argv = Some o1" by blast
  have "main_concurrent strict_stdout stub_run ?s2 ?argv \<noteq> None" by code_simp
  then obtain o2 where h2: "main_concurrent strict_stdout stub_run ?s2 ?argv = Some o2" by blast
  from print_order_deterministic [of strict_stdout stub_run ?argv ?s1 o1 ?s2 o2] h1 h2
  have "o1 = o2" and "o1 = main strict_stdout stub_run ?argv" by blast+
  with h1 h2 show ?thesis by metis
qed

end
